theory Spec2Isabelle
  imports Main "HOL-Library.Word" "HOL-Library.Signed_Division"
begin

section \<open>Display width of Unicode code points (wcwidth.c)\<close>

text \<open>
  A shallow embedding of \<^verbatim>\<open>wcwidth.c\<close>: the interval tables, the binary search
  \<^verbatim>\<open>bisearch\<close>, the classifiers \<^verbatim>\<open>mk_wcwidth\<close> and \<^verbatim>\<open>mk_wcwidth_cjk\<close>, and the
  string accumulators \<^verbatim>\<open>mk_wcswidth\<close> and \<^verbatim>\<open>mk_wcswidth_cjk\<close>.

  \<^item> \<^verbatim>\<open>unsigned int\<close> is a 32-bit word; comparisons on it are unsigned.
  \<^item> \<^verbatim>\<open>int\<close> is a 32-bit signed integer. It is modelled as a mathematical integer
    together with a range check after every arithmetic operation of the source
    (\<open>c_int\<close>): a result outside \<open>[-2^31, 2^31 - 1]\<close> is undefined behaviour in C
    and the fault \<open>IntOverflow\<close> here.
  \<^item> An array behind a pointer is a list. Reading an element that the list does not
    have is undefined behaviour in C and the fault \<open>OutOfBounds\<close> here.
  \<^item> \<^verbatim>\<open>size_t n\<close> is a natural number: the source only tests it against 0 and
    decrements it.
\<close>

subsection \<open>Data model\<close>

type_synonym u32 = "32 word"

text \<open>
  \<^verbatim>\<open>struct interval { unsigned int first; unsigned int last; }\<close>. The field
  \<^verbatim>\<open>last\<close> is \<open>last_cp\<close> here, since \<open>last\<close> is the last element of a list in HOL.
\<close>

record interval =
  first :: u32
  last_cp :: u32

datatype fault = OutOfBounds | IntOverflow

definition c_int :: "int \<Rightarrow> fault + int" where
  "c_int v = (if - 2147483648 \<le> v \<and> v \<le> 2147483647 then Inr v else Inl IntOverflow)"

text \<open>\<^verbatim>\<open>table[i]\<close> for a signed index \<open>i\<close>.\<close>

definition at_index :: "'a list \<Rightarrow> int \<Rightarrow> fault + 'a" where
  "at_index xs i = (if 0 \<le> i \<and> i < int (length xs) then Inr (xs ! nat i) else Inl OutOfBounds)"

subsection \<open>The interval tables\<close>

text \<open>The table \<^verbatim>\<open>combining\<close> of \<^verbatim>\<open>mk_wcwidth\<close>: non-spacing and format characters.\<close>

definition combining :: "interval list" where
  "combining = [
   \<lparr>first = 0x00AD, last_cp = 0x00AD\<rparr>, \<lparr>first = 0x0300, last_cp = 0x036F\<rparr>,
   \<lparr>first = 0x0483, last_cp = 0x0489\<rparr>, \<lparr>first = 0x0591, last_cp = 0x05BD\<rparr>,
   \<lparr>first = 0x05BF, last_cp = 0x05BF\<rparr>, \<lparr>first = 0x05C1, last_cp = 0x05C2\<rparr>,
   \<lparr>first = 0x05C4, last_cp = 0x05C5\<rparr>, \<lparr>first = 0x05C7, last_cp = 0x05C7\<rparr>,
   \<lparr>first = 0x0600, last_cp = 0x0605\<rparr>, \<lparr>first = 0x0610, last_cp = 0x061A\<rparr>,
   \<lparr>first = 0x061C, last_cp = 0x061C\<rparr>, \<lparr>first = 0x064B, last_cp = 0x065F\<rparr>,
   \<lparr>first = 0x0670, last_cp = 0x0670\<rparr>, \<lparr>first = 0x06D6, last_cp = 0x06DD\<rparr>,
   \<lparr>first = 0x06DF, last_cp = 0x06E4\<rparr>, \<lparr>first = 0x06E7, last_cp = 0x06E8\<rparr>,
   \<lparr>first = 0x06EA, last_cp = 0x06ED\<rparr>, \<lparr>first = 0x070F, last_cp = 0x070F\<rparr>,
   \<lparr>first = 0x0711, last_cp = 0x0711\<rparr>, \<lparr>first = 0x0730, last_cp = 0x074A\<rparr>,
   \<lparr>first = 0x07A6, last_cp = 0x07B0\<rparr>, \<lparr>first = 0x07EB, last_cp = 0x07F3\<rparr>,
   \<lparr>first = 0x0816, last_cp = 0x0819\<rparr>, \<lparr>first = 0x081B, last_cp = 0x0823\<rparr>,
   \<lparr>first = 0x0825, last_cp = 0x0827\<rparr>, \<lparr>first = 0x0829, last_cp = 0x082D\<rparr>,
   \<lparr>first = 0x0859, last_cp = 0x085B\<rparr>, \<lparr>first = 0x08E3, last_cp = 0x0902\<rparr>,
   \<lparr>first = 0x093A, last_cp = 0x093A\<rparr>, \<lparr>first = 0x093C, last_cp = 0x093C\<rparr>,
   \<lparr>first = 0x0941, last_cp = 0x0948\<rparr>, \<lparr>first = 0x094D, last_cp = 0x094D\<rparr>,
   \<lparr>first = 0x0951, last_cp = 0x0957\<rparr>, \<lparr>first = 0x0962, last_cp = 0x0963\<rparr>,
   \<lparr>first = 0x0981, last_cp = 0x0981\<rparr>, \<lparr>first = 0x09BC, last_cp = 0x09BC\<rparr>,
   \<lparr>first = 0x09C1, last_cp = 0x09C4\<rparr>, \<lparr>first = 0x09CD, last_cp = 0x09CD\<rparr>,
   \<lparr>first = 0x09E2, last_cp = 0x09E3\<rparr>, \<lparr>first = 0x0A01, last_cp = 0x0A02\<rparr>,
   \<lparr>first = 0x0A3C, last_cp = 0x0A3C\<rparr>, \<lparr>first = 0x0A41, last_cp = 0x0A42\<rparr>,
   \<lparr>first = 0x0A47, last_cp = 0x0A48\<rparr>, \<lparr>first = 0x0A4B, last_cp = 0x0A4D\<rparr>,
   \<lparr>first = 0x0A51, last_cp = 0x0A51\<rparr>, \<lparr>first = 0x0A70, last_cp = 0x0A71\<rparr>,
   \<lparr>first = 0x0A75, last_cp = 0x0A75\<rparr>, \<lparr>first = 0x0A81, last_cp = 0x0A82\<rparr>,
   \<lparr>first = 0x0ABC, last_cp = 0x0ABC\<rparr>, \<lparr>first = 0x0AC1, last_cp = 0x0AC5\<rparr>,
   \<lparr>first = 0x0AC7, last_cp = 0x0AC8\<rparr>, \<lparr>first = 0x0ACD, last_cp = 0x0ACD\<rparr>,
   \<lparr>first = 0x0AE2, last_cp = 0x0AE3\<rparr>, \<lparr>first = 0x0B01, last_cp = 0x0B01\<rparr>,
   \<lparr>first = 0x0B3C, last_cp = 0x0B3C\<rparr>, \<lparr>first = 0x0B3F, last_cp = 0x0B3F\<rparr>,
   \<lparr>first = 0x0B41, last_cp = 0x0B44\<rparr>, \<lparr>first = 0x0B4D, last_cp = 0x0B4D\<rparr>,
   \<lparr>first = 0x0B56, last_cp = 0x0B56\<rparr>, \<lparr>first = 0x0B62, last_cp = 0x0B63\<rparr>,
   \<lparr>first = 0x0B82, last_cp = 0x0B82\<rparr>, \<lparr>first = 0x0BC0, last_cp = 0x0BC0\<rparr>,
   \<lparr>first = 0x0BCD, last_cp = 0x0BCD\<rparr>, \<lparr>first = 0x0C00, last_cp = 0x0C00\<rparr>,
   \<lparr>first = 0x0C3E, last_cp = 0x0C40\<rparr>, \<lparr>first = 0x0C46, last_cp = 0x0C48\<rparr>,
   \<lparr>first = 0x0C4A, last_cp = 0x0C4D\<rparr>, \<lparr>first = 0x0C55, last_cp = 0x0C56\<rparr>,
   \<lparr>first = 0x0C62, last_cp = 0x0C63\<rparr>, \<lparr>first = 0x0C81, last_cp = 0x0C81\<rparr>,
   \<lparr>first = 0x0CBC, last_cp = 0x0CBC\<rparr>, \<lparr>first = 0x0CBF, last_cp = 0x0CBF\<rparr>,
   \<lparr>first = 0x0CC6, last_cp = 0x0CC6\<rparr>, \<lparr>first = 0x0CCC, last_cp = 0x0CCD\<rparr>,
   \<lparr>first = 0x0CE2, last_cp = 0x0CE3\<rparr>, \<lparr>first = 0x0D01, last_cp = 0x0D01\<rparr>,
   \<lparr>first = 0x0D41, last_cp = 0x0D44\<rparr>, \<lparr>first = 0x0D4D, last_cp = 0x0D4D\<rparr>,
   \<lparr>first = 0x0D62, last_cp = 0x0D63\<rparr>, \<lparr>first = 0x0DCA, last_cp = 0x0DCA\<rparr>,
   \<lparr>first = 0x0DD2, last_cp = 0x0DD4\<rparr>, \<lparr>first = 0x0DD6, last_cp = 0x0DD6\<rparr>,
   \<lparr>first = 0x0E31, last_cp = 0x0E31\<rparr>, \<lparr>first = 0x0E34, last_cp = 0x0E3A\<rparr>,
   \<lparr>first = 0x0E47, last_cp = 0x0E4E\<rparr>, \<lparr>first = 0x0EB1, last_cp = 0x0EB1\<rparr>,
   \<lparr>first = 0x0EB4, last_cp = 0x0EB9\<rparr>, \<lparr>first = 0x0EBB, last_cp = 0x0EBC\<rparr>,
   \<lparr>first = 0x0EC8, last_cp = 0x0ECD\<rparr>, \<lparr>first = 0x0F18, last_cp = 0x0F19\<rparr>,
   \<lparr>first = 0x0F35, last_cp = 0x0F35\<rparr>, \<lparr>first = 0x0F37, last_cp = 0x0F37\<rparr>,
   \<lparr>first = 0x0F39, last_cp = 0x0F39\<rparr>, \<lparr>first = 0x0F71, last_cp = 0x0F7E\<rparr>,
   \<lparr>first = 0x0F80, last_cp = 0x0F84\<rparr>, \<lparr>first = 0x0F86, last_cp = 0x0F87\<rparr>,
   \<lparr>first = 0x0F8D, last_cp = 0x0F97\<rparr>, \<lparr>first = 0x0F99, last_cp = 0x0FBC\<rparr>,
   \<lparr>first = 0x0FC6, last_cp = 0x0FC6\<rparr>, \<lparr>first = 0x102D, last_cp = 0x1030\<rparr>,
   \<lparr>first = 0x1032, last_cp = 0x1037\<rparr>, \<lparr>first = 0x1039, last_cp = 0x103A\<rparr>,
   \<lparr>first = 0x103D, last_cp = 0x103E\<rparr>, \<lparr>first = 0x1058, last_cp = 0x1059\<rparr>,
   \<lparr>first = 0x105E, last_cp = 0x1060\<rparr>, \<lparr>first = 0x1071, last_cp = 0x1074\<rparr>,
   \<lparr>first = 0x1082, last_cp = 0x1082\<rparr>, \<lparr>first = 0x1085, last_cp = 0x1086\<rparr>,
   \<lparr>first = 0x108D, last_cp = 0x108D\<rparr>, \<lparr>first = 0x109D, last_cp = 0x109D\<rparr>,
   \<lparr>first = 0x135D, last_cp = 0x135F\<rparr>, \<lparr>first = 0x1712, last_cp = 0x1714\<rparr>,
   \<lparr>first = 0x1732, last_cp = 0x1734\<rparr>, \<lparr>first = 0x1752, last_cp = 0x1753\<rparr>,
   \<lparr>first = 0x1772, last_cp = 0x1773\<rparr>, \<lparr>first = 0x17B4, last_cp = 0x17B5\<rparr>,
   \<lparr>first = 0x17B7, last_cp = 0x17BD\<rparr>, \<lparr>first = 0x17C6, last_cp = 0x17C6\<rparr>,
   \<lparr>first = 0x17C9, last_cp = 0x17D3\<rparr>, \<lparr>first = 0x17DD, last_cp = 0x17DD\<rparr>,
   \<lparr>first = 0x180B, last_cp = 0x180E\<rparr>, \<lparr>first = 0x18A9, last_cp = 0x18A9\<rparr>,
   \<lparr>first = 0x1920, last_cp = 0x1922\<rparr>, \<lparr>first = 0x1927, last_cp = 0x1928\<rparr>,
   \<lparr>first = 0x1932, last_cp = 0x1932\<rparr>, \<lparr>first = 0x1939, last_cp = 0x193B\<rparr>,
   \<lparr>first = 0x1A17, last_cp = 0x1A18\<rparr>, \<lparr>first = 0x1A1B, last_cp = 0x1A1B\<rparr>,
   \<lparr>first = 0x1A56, last_cp = 0x1A56\<rparr>, \<lparr>first = 0x1A58, last_cp = 0x1A5E\<rparr>,
   \<lparr>first = 0x1A60, last_cp = 0x1A60\<rparr>, \<lparr>first = 0x1A62, last_cp = 0x1A62\<rparr>,
   \<lparr>first = 0x1A65, last_cp = 0x1A6C\<rparr>, \<lparr>first = 0x1A73, last_cp = 0x1A7C\<rparr>,
   \<lparr>first = 0x1A7F, last_cp = 0x1A7F\<rparr>, \<lparr>first = 0x1AB0, last_cp = 0x1ABE\<rparr>,
   \<lparr>first = 0x1B00, last_cp = 0x1B03\<rparr>, \<lparr>first = 0x1B34, last_cp = 0x1B34\<rparr>,
   \<lparr>first = 0x1B36, last_cp = 0x1B3A\<rparr>, \<lparr>first = 0x1B3C, last_cp = 0x1B3C\<rparr>,
   \<lparr>first = 0x1B42, last_cp = 0x1B42\<rparr>, \<lparr>first = 0x1B6B, last_cp = 0x1B73\<rparr>,
   \<lparr>first = 0x1B80, last_cp = 0x1B81\<rparr>, \<lparr>first = 0x1BA2, last_cp = 0x1BA5\<rparr>,
   \<lparr>first = 0x1BA8, last_cp = 0x1BA9\<rparr>, \<lparr>first = 0x1BAB, last_cp = 0x1BAD\<rparr>,
   \<lparr>first = 0x1BE6, last_cp = 0x1BE6\<rparr>, \<lparr>first = 0x1BE8, last_cp = 0x1BE9\<rparr>,
   \<lparr>first = 0x1BED, last_cp = 0x1BED\<rparr>, \<lparr>first = 0x1BEF, last_cp = 0x1BF1\<rparr>,
   \<lparr>first = 0x1C2C, last_cp = 0x1C33\<rparr>, \<lparr>first = 0x1C36, last_cp = 0x1C37\<rparr>,
   \<lparr>first = 0x1CD0, last_cp = 0x1CD2\<rparr>, \<lparr>first = 0x1CD4, last_cp = 0x1CE0\<rparr>,
   \<lparr>first = 0x1CE2, last_cp = 0x1CE8\<rparr>, \<lparr>first = 0x1CED, last_cp = 0x1CED\<rparr>,
   \<lparr>first = 0x1CF4, last_cp = 0x1CF4\<rparr>, \<lparr>first = 0x1CF8, last_cp = 0x1CF9\<rparr>,
   \<lparr>first = 0x1DC0, last_cp = 0x1DF5\<rparr>, \<lparr>first = 0x1DFC, last_cp = 0x1DFF\<rparr>,
   \<lparr>first = 0x200B, last_cp = 0x200F\<rparr>, \<lparr>first = 0x202A, last_cp = 0x202E\<rparr>,
   \<lparr>first = 0x2060, last_cp = 0x2064\<rparr>, \<lparr>first = 0x2066, last_cp = 0x206F\<rparr>,
   \<lparr>first = 0x20D0, last_cp = 0x20F0\<rparr>, \<lparr>first = 0x2CEF, last_cp = 0x2CF1\<rparr>,
   \<lparr>first = 0x2D7F, last_cp = 0x2D7F\<rparr>, \<lparr>first = 0x2DE0, last_cp = 0x2DFF\<rparr>,
   \<lparr>first = 0x302A, last_cp = 0x302D\<rparr>, \<lparr>first = 0x3099, last_cp = 0x309A\<rparr>,
   \<lparr>first = 0xA66F, last_cp = 0xA672\<rparr>, \<lparr>first = 0xA674, last_cp = 0xA67D\<rparr>,
   \<lparr>first = 0xA69E, last_cp = 0xA69F\<rparr>, \<lparr>first = 0xA6F0, last_cp = 0xA6F1\<rparr>,
   \<lparr>first = 0xA802, last_cp = 0xA802\<rparr>, \<lparr>first = 0xA806, last_cp = 0xA806\<rparr>,
   \<lparr>first = 0xA80B, last_cp = 0xA80B\<rparr>, \<lparr>first = 0xA825, last_cp = 0xA826\<rparr>,
   \<lparr>first = 0xA8C4, last_cp = 0xA8C4\<rparr>, \<lparr>first = 0xA8E0, last_cp = 0xA8F1\<rparr>,
   \<lparr>first = 0xA926, last_cp = 0xA92D\<rparr>, \<lparr>first = 0xA947, last_cp = 0xA951\<rparr>,
   \<lparr>first = 0xA980, last_cp = 0xA982\<rparr>, \<lparr>first = 0xA9B3, last_cp = 0xA9B3\<rparr>,
   \<lparr>first = 0xA9B6, last_cp = 0xA9B9\<rparr>, \<lparr>first = 0xA9BC, last_cp = 0xA9BC\<rparr>,
   \<lparr>first = 0xA9E5, last_cp = 0xA9E5\<rparr>, \<lparr>first = 0xAA29, last_cp = 0xAA2E\<rparr>,
   \<lparr>first = 0xAA31, last_cp = 0xAA32\<rparr>, \<lparr>first = 0xAA35, last_cp = 0xAA36\<rparr>,
   \<lparr>first = 0xAA43, last_cp = 0xAA43\<rparr>, \<lparr>first = 0xAA4C, last_cp = 0xAA4C\<rparr>,
   \<lparr>first = 0xAA7C, last_cp = 0xAA7C\<rparr>, \<lparr>first = 0xAAB0, last_cp = 0xAAB0\<rparr>,
   \<lparr>first = 0xAAB2, last_cp = 0xAAB4\<rparr>, \<lparr>first = 0xAAB7, last_cp = 0xAAB8\<rparr>,
   \<lparr>first = 0xAABE, last_cp = 0xAABF\<rparr>, \<lparr>first = 0xAAC1, last_cp = 0xAAC1\<rparr>,
   \<lparr>first = 0xAAEC, last_cp = 0xAAED\<rparr>, \<lparr>first = 0xAAF6, last_cp = 0xAAF6\<rparr>,
   \<lparr>first = 0xABE5, last_cp = 0xABE5\<rparr>, \<lparr>first = 0xABE8, last_cp = 0xABE8\<rparr>,
   \<lparr>first = 0xABED, last_cp = 0xABED\<rparr>, \<lparr>first = 0xFB1E, last_cp = 0xFB1E\<rparr>,
   \<lparr>first = 0xFE00, last_cp = 0xFE0F\<rparr>, \<lparr>first = 0xFE20, last_cp = 0xFE2F\<rparr>,
   \<lparr>first = 0xFEFF, last_cp = 0xFEFF\<rparr>, \<lparr>first = 0xFFF9, last_cp = 0xFFFB\<rparr>,
   \<lparr>first = 0x101FD, last_cp = 0x101FD\<rparr>, \<lparr>first = 0x102E0, last_cp = 0x102E0\<rparr>,
   \<lparr>first = 0x10376, last_cp = 0x1037A\<rparr>, \<lparr>first = 0x10A01, last_cp = 0x10A03\<rparr>,
   \<lparr>first = 0x10A05, last_cp = 0x10A06\<rparr>, \<lparr>first = 0x10A0C, last_cp = 0x10A0F\<rparr>,
   \<lparr>first = 0x10A38, last_cp = 0x10A3A\<rparr>, \<lparr>first = 0x10A3F, last_cp = 0x10A3F\<rparr>,
   \<lparr>first = 0x10AE5, last_cp = 0x10AE6\<rparr>, \<lparr>first = 0x11001, last_cp = 0x11001\<rparr>,
   \<lparr>first = 0x11038, last_cp = 0x11046\<rparr>, \<lparr>first = 0x1107F, last_cp = 0x11081\<rparr>,
   \<lparr>first = 0x110B3, last_cp = 0x110B6\<rparr>, \<lparr>first = 0x110B9, last_cp = 0x110BA\<rparr>,
   \<lparr>first = 0x110BD, last_cp = 0x110BD\<rparr>, \<lparr>first = 0x11100, last_cp = 0x11102\<rparr>,
   \<lparr>first = 0x11127, last_cp = 0x1112B\<rparr>, \<lparr>first = 0x1112D, last_cp = 0x11134\<rparr>,
   \<lparr>first = 0x11173, last_cp = 0x11173\<rparr>, \<lparr>first = 0x11180, last_cp = 0x11181\<rparr>,
   \<lparr>first = 0x111B6, last_cp = 0x111BE\<rparr>, \<lparr>first = 0x111CA, last_cp = 0x111CC\<rparr>,
   \<lparr>first = 0x1122F, last_cp = 0x11231\<rparr>, \<lparr>first = 0x11234, last_cp = 0x11234\<rparr>,
   \<lparr>first = 0x11236, last_cp = 0x11237\<rparr>, \<lparr>first = 0x112DF, last_cp = 0x112DF\<rparr>,
   \<lparr>first = 0x112E3, last_cp = 0x112EA\<rparr>, \<lparr>first = 0x11300, last_cp = 0x11301\<rparr>,
   \<lparr>first = 0x1133C, last_cp = 0x1133C\<rparr>, \<lparr>first = 0x11340, last_cp = 0x11340\<rparr>,
   \<lparr>first = 0x11366, last_cp = 0x1136C\<rparr>, \<lparr>first = 0x11370, last_cp = 0x11374\<rparr>,
   \<lparr>first = 0x114B3, last_cp = 0x114B8\<rparr>, \<lparr>first = 0x114BA, last_cp = 0x114BA\<rparr>,
   \<lparr>first = 0x114BF, last_cp = 0x114C0\<rparr>, \<lparr>first = 0x114C2, last_cp = 0x114C3\<rparr>,
   \<lparr>first = 0x115B2, last_cp = 0x115B5\<rparr>, \<lparr>first = 0x115BC, last_cp = 0x115BD\<rparr>,
   \<lparr>first = 0x115BF, last_cp = 0x115C0\<rparr>, \<lparr>first = 0x115DC, last_cp = 0x115DD\<rparr>,
   \<lparr>first = 0x11633, last_cp = 0x1163A\<rparr>, \<lparr>first = 0x1163D, last_cp = 0x1163D\<rparr>,
   \<lparr>first = 0x1163F, last_cp = 0x11640\<rparr>, \<lparr>first = 0x116AB, last_cp = 0x116AB\<rparr>,
   \<lparr>first = 0x116AD, last_cp = 0x116AD\<rparr>, \<lparr>first = 0x116B0, last_cp = 0x116B5\<rparr>,
   \<lparr>first = 0x116B7, last_cp = 0x116B7\<rparr>, \<lparr>first = 0x1171D, last_cp = 0x1171F\<rparr>,
   \<lparr>first = 0x11722, last_cp = 0x11725\<rparr>, \<lparr>first = 0x11727, last_cp = 0x1172B\<rparr>,
   \<lparr>first = 0x16AF0, last_cp = 0x16AF4\<rparr>, \<lparr>first = 0x16B30, last_cp = 0x16B36\<rparr>,
   \<lparr>first = 0x16F8F, last_cp = 0x16F92\<rparr>, \<lparr>first = 0x1BC9D, last_cp = 0x1BC9E\<rparr>,
   \<lparr>first = 0x1BCA0, last_cp = 0x1BCA3\<rparr>, \<lparr>first = 0x1D167, last_cp = 0x1D169\<rparr>,
   \<lparr>first = 0x1D173, last_cp = 0x1D182\<rparr>, \<lparr>first = 0x1D185, last_cp = 0x1D18B\<rparr>,
   \<lparr>first = 0x1D1AA, last_cp = 0x1D1AD\<rparr>, \<lparr>first = 0x1D242, last_cp = 0x1D244\<rparr>,
   \<lparr>first = 0x1DA00, last_cp = 0x1DA36\<rparr>, \<lparr>first = 0x1DA3B, last_cp = 0x1DA6C\<rparr>,
   \<lparr>first = 0x1DA75, last_cp = 0x1DA75\<rparr>, \<lparr>first = 0x1DA84, last_cp = 0x1DA84\<rparr>,
   \<lparr>first = 0x1DA9B, last_cp = 0x1DA9F\<rparr>, \<lparr>first = 0x1DAA1, last_cp = 0x1DAAF\<rparr>,
   \<lparr>first = 0x1E8D0, last_cp = 0x1E8D6\<rparr>, \<lparr>first = 0xE0001, last_cp = 0xE0001\<rparr>,
   \<lparr>first = 0xE0020, last_cp = 0xE007F\<rparr>, \<lparr>first = 0xE0100, last_cp = 0xE01EF\<rparr>]"

text \<open>The table \<^verbatim>\<open>wide\<close> of \<^verbatim>\<open>mk_wcwidth\<close>: East Asian Wide and Fullwidth characters.\<close>

definition wide :: "interval list" where
  "wide = [
   \<lparr>first = 0x1100, last_cp = 0x115F\<rparr>, \<lparr>first = 0x2329, last_cp = 0x232A\<rparr>,
   \<lparr>first = 0x2E80, last_cp = 0x2E99\<rparr>, \<lparr>first = 0x2E9B, last_cp = 0x2EF3\<rparr>,
   \<lparr>first = 0x2F00, last_cp = 0x2FD5\<rparr>, \<lparr>first = 0x2FF0, last_cp = 0x2FFB\<rparr>,
   \<lparr>first = 0x3000, last_cp = 0x303E\<rparr>, \<lparr>first = 0x3041, last_cp = 0x3096\<rparr>,
   \<lparr>first = 0x3099, last_cp = 0x30FF\<rparr>, \<lparr>first = 0x3105, last_cp = 0x312D\<rparr>,
   \<lparr>first = 0x3131, last_cp = 0x318E\<rparr>, \<lparr>first = 0x3190, last_cp = 0x31BA\<rparr>,
   \<lparr>first = 0x31C0, last_cp = 0x31E3\<rparr>, \<lparr>first = 0x31F0, last_cp = 0x321E\<rparr>,
   \<lparr>first = 0x3220, last_cp = 0x3247\<rparr>, \<lparr>first = 0x3250, last_cp = 0x32FE\<rparr>,
   \<lparr>first = 0x3300, last_cp = 0x4DBF\<rparr>, \<lparr>first = 0x4E00, last_cp = 0xA48C\<rparr>,
   \<lparr>first = 0xA490, last_cp = 0xA4C6\<rparr>, \<lparr>first = 0xA960, last_cp = 0xA97C\<rparr>,
   \<lparr>first = 0xAC00, last_cp = 0xD7A3\<rparr>, \<lparr>first = 0xF900, last_cp = 0xFAFF\<rparr>,
   \<lparr>first = 0xFE10, last_cp = 0xFE19\<rparr>, \<lparr>first = 0xFE30, last_cp = 0xFE52\<rparr>,
   \<lparr>first = 0xFE54, last_cp = 0xFE66\<rparr>, \<lparr>first = 0xFE68, last_cp = 0xFE6B\<rparr>,
   \<lparr>first = 0xFF01, last_cp = 0xFF60\<rparr>, \<lparr>first = 0xFFE0, last_cp = 0xFFE6\<rparr>,
   \<lparr>first = 0x1B000, last_cp = 0x1B001\<rparr>, \<lparr>first = 0x1F200, last_cp = 0x1F202\<rparr>,
   \<lparr>first = 0x1F210, last_cp = 0x1F23A\<rparr>, \<lparr>first = 0x1F240, last_cp = 0x1F248\<rparr>,
   \<lparr>first = 0x1F250, last_cp = 0x1F251\<rparr>, \<lparr>first = 0x20000, last_cp = 0x2FFFD\<rparr>,
   \<lparr>first = 0x30000, last_cp = 0x3FFFD\<rparr>]"

subsection \<open>Binary search\<close>

text \<open>
  The \<^verbatim>\<open>while (max >= min)\<close> loop of \<^verbatim>\<open>bisearch\<close>. The division of C truncates
  towards zero (\<open>sdiv\<close>). The result is the C truth value, 1 or 0.
\<close>

function bisearch_loop :: "u32 \<Rightarrow> interval list \<Rightarrow> int \<Rightarrow> int \<Rightarrow> fault + int" where
  "bisearch_loop ucs table min_i max_i =
     (if max_i \<ge> min_i then
        (case c_int (min_i + max_i) of
           Inl e \<Rightarrow> Inl e
         | Inr s \<Rightarrow>
            (let mid = s sdiv 2 in
             (case at_index table mid of
                Inl e \<Rightarrow> Inl e
              | Inr t \<Rightarrow>
                 if ucs > last_cp t then
                   (case c_int (mid + 1) of
                      Inl e \<Rightarrow> Inl e
                    | Inr min' \<Rightarrow> bisearch_loop ucs table min' max_i)
                 else if ucs < first t then
                   (case c_int (mid - 1) of
                      Inl e \<Rightarrow> Inl e
                    | Inr max' \<Rightarrow> bisearch_loop ucs table min_i max')
                 else Inr 1)))
      else Inr 0)"
  by pat_completeness auto

termination bisearch_loop
proof (relation "measure (\<lambda>(ucs, table, min_i, max_i). nat (max_i - min_i + 1))")
  have mid: "a \<le> (a + b) sdiv 2 \<and> (a + b) sdiv 2 \<le> b" if "a \<le> b" for a b :: int
  proof -
    have "(a + b) sdiv 2 = (if 0 \<le> a + b then (a + b) div 2 else - ((- (a + b)) div 2))"
      by (simp add: signed_divide_int_def sgn_if)
    with that show ?thesis by (simp, linarith)
  qed
  {
    fix ucs :: u32 and table :: "interval list" and min_i max_i s mid min' :: int
    assume "min_i \<le> max_i" "c_int (min_i + max_i) = Inr s" "mid = s sdiv 2"
      "c_int (mid + 1) = Inr min'"
    then have "s = min_i + max_i" "min' = mid + 1"
      by (auto simp: c_int_def split: if_splits)
    with \<open>min_i \<le> max_i\<close> \<open>mid = s sdiv 2\<close> mid [of min_i max_i]
    show "((ucs, table, min', max_i), (ucs, table, min_i, max_i))
            \<in> measure (\<lambda>(ucs, table, min_i, max_i). nat (max_i - min_i + 1))"
      by simp
  next
    fix ucs :: u32 and table :: "interval list" and min_i max_i s mid max' :: int
    assume "min_i \<le> max_i" "c_int (min_i + max_i) = Inr s" "mid = s sdiv 2"
      "c_int (mid - 1) = Inr max'"
    then have "s = min_i + max_i" "max' = mid - 1"
      by (auto simp: c_int_def split: if_splits)
    with \<open>min_i \<le> max_i\<close> \<open>mid = s sdiv 2\<close> mid [of min_i max_i]
    show "((ucs, table, min_i, max'), (ucs, table, min_i, max_i))
            \<in> measure (\<lambda>(ucs, table, min_i, max_i). nat (max_i - min_i + 1))"
      by simp
  }
qed simp

declare bisearch_loop.simps [simp del]

text \<open>
  \<^verbatim>\<open>bisearch(ucs, table, max)\<close>: the two range tests against \<^verbatim>\<open>table[0]\<close> and
  \<^verbatim>\<open>table[max]\<close> (the second is evaluated only when the first is false), then the loop
  with \<^verbatim>\<open>min = 0\<close>.
\<close>

definition bisearch :: "u32 \<Rightarrow> interval list \<Rightarrow> int \<Rightarrow> fault + int" where
  "bisearch ucs table max_i =
     (case at_index table 0 of
        Inl e \<Rightarrow> Inl e
      | Inr t0 \<Rightarrow>
         if ucs < first t0 then Inr 0
         else
           (case at_index table max_i of
              Inl e \<Rightarrow> Inl e
            | Inr tm \<Rightarrow>
               if ucs > last_cp tm then Inr 0
               else bisearch_loop ucs table 0 max_i))"

subsection \<open>Width of one code point\<close>

text \<open>
  \<^verbatim>\<open>mk_wcwidth\<close>. The third argument of each \<^verbatim>\<open>bisearch\<close> call is
  \<^verbatim>\<open>sizeof(table) / sizeof(struct interval) - 1\<close>, the index of the last entry.
\<close>

definition mk_wcwidth :: "u32 \<Rightarrow> fault + int" where
  "mk_wcwidth ucs =
     (if ucs < 0x0300 then
        (if ucs = 0 then Inr 0
         else if ucs < 32 \<or> (ucs \<ge> 0x7F \<and> ucs < 0xA0) then Inr (- 1)
         else Inr 1)
      else
        (case bisearch ucs combining (int (length combining) - 1) of
           Inl e \<Rightarrow> Inl e
         | Inr b \<Rightarrow>
            if b \<noteq> 0 then Inr 0
            else if ucs < 0x1100 then Inr 1
            else if ucs \<ge> 0x1160 \<and> ucs \<le> 0x11FF then Inr 0
            else
              (case bisearch ucs wide (int (length wide) - 1) of
                 Inl e \<Rightarrow> Inl e
               | Inr b' \<Rightarrow> c_int (1 + b'))))"

text \<open>\<^verbatim>\<open>mk_wcwidth_cjk\<close>: the width for text converted from a DBCS code page.\<close>

definition mk_wcwidth_cjk :: "u32 \<Rightarrow> fault + int" where
  "mk_wcwidth_cjk ucs =
     (case mk_wcwidth ucs of
        Inl e \<Rightarrow> Inl e
      | Inr w \<Rightarrow>
         if w = 1 \<and> ucs \<ge> 0x00A1 \<and> ucs < 0xFF61 \<and> ucs \<noteq> 0x20A9 then Inr 2
         else Inr w)"

subsection \<open>Width of a string\<close>

text \<open>
  The loop \<^verbatim>\<open>for (; *pwcs && n-- > 0; pwcs++)\<close> of \<^verbatim>\<open>mk_wcswidth\<close>. The first
  argument is the array from the position of the pointer onwards, so \<^verbatim>\<open>pwcs++\<close> is
  the tail of the list and \<^verbatim>\<open>*pwcs\<close> on the empty list reads past the end of the
  array. The source reads \<^verbatim>\<open>*pwcs\<close> before it tests \<^verbatim>\<open>n\<close>.
\<close>

fun mk_wcswidth_loop :: "u32 list \<Rightarrow> nat \<Rightarrow> int \<Rightarrow> fault + int" where
  "mk_wcswidth_loop [] n width = Inl OutOfBounds"
| "mk_wcswidth_loop (c # pwcs) n width =
     (if c = 0 then Inr width
      else
        (case n of
           0 \<Rightarrow> Inr width
         | Suc n' \<Rightarrow>
            (case mk_wcwidth c of
               Inl e \<Rightarrow> Inl e
             | Inr w \<Rightarrow>
                if w < 0 then Inr (- 1)
                else
                  (case c_int (width + w) of
                     Inl e \<Rightarrow> Inl e
                   | Inr width' \<Rightarrow> mk_wcswidth_loop pwcs n' width'))))"

definition mk_wcswidth :: "u32 list \<Rightarrow> nat \<Rightarrow> fault + int" where
  "mk_wcswidth pwcs n = mk_wcswidth_loop pwcs n 0"

text \<open>\<^verbatim>\<open>mk_wcswidth_cjk\<close>: the same loop over \<^verbatim>\<open>mk_wcwidth_cjk\<close>.\<close>

fun mk_wcswidth_cjk_loop :: "u32 list \<Rightarrow> nat \<Rightarrow> int \<Rightarrow> fault + int" where
  "mk_wcswidth_cjk_loop [] n width = Inl OutOfBounds"
| "mk_wcswidth_cjk_loop (c # pwcs) n width =
     (if c = 0 then Inr width
      else
        (case n of
           0 \<Rightarrow> Inr width
         | Suc n' \<Rightarrow>
            (case mk_wcwidth_cjk c of
               Inl e \<Rightarrow> Inl e
             | Inr w \<Rightarrow>
                if w < 0 then Inr (- 1)
                else
                  (case c_int (width + w) of
                     Inl e \<Rightarrow> Inl e
                   | Inr width' \<Rightarrow> mk_wcswidth_cjk_loop pwcs n' width'))))"


subsection \<open>Notions of the specification\<close>

text \<open>An interval table holds a code point when one of its intervals does.\<close>

definition in_table :: "u32 \<Rightarrow> interval list \<Rightarrow> bool" where
  "in_table ucs table = list_ex (\<lambda>t. first t \<le> ucs \<and> ucs \<le> last_cp t) table"

text \<open>
  The table invariant: every interval has \<open>first \<le> last\<close>, and each interval ends
  strictly before the next one starts.
\<close>

fun table_inv :: "interval list \<Rightarrow> bool" where
  "table_inv [] = True"
| "table_inv [t] = (first t \<le> last_cp t)"
| "table_inv (t # t' # ts) = (first t \<le> last_cp t \<and> last_cp t < first t' \<and> table_inv (t' # ts))"

text \<open>
  The elements that a string accumulator classifies, when none of them stops it early:
  those before the first zero among the first \<open>n\<close>.
\<close>

definition traversed :: "u32 list \<Rightarrow> nat \<Rightarrow> u32 list" where
  "traversed pwcs n = takeWhile (\<lambda>c. c \<noteq> 0) (take n pwcs)"

subsection \<open>A large table\<close>

text \<open>
  The table of the \<open>n\<close> one-point intervals \<open>[i, i]\<close> for \<open>i < n\<close>, in ascending
  order: an input for \<^verbatim>\<open>bisearch\<close> of any given size.
\<close>

definition singleton_table :: "nat \<Rightarrow> interval list" where
  "singleton_table n = map (\<lambda>i. \<lparr>first = of_nat i, last_cp = of_nat i\<rparr>) [0..<n]"

section \<open>Properties\<close>

subsection \<open>Arithmetic of the midpoint\<close>

lemma sdiv2_eq: "(s :: int) sdiv 2 = (if 0 \<le> s then s div 2 else - ((- s) div 2))"
  by (simp add: signed_divide_int_def sgn_if)

lemma sdiv2_between:
  fixes a b :: int
  assumes "a \<le> b"
  shows "a \<le> (a + b) sdiv 2" and "(a + b) sdiv 2 \<le> b"
  using assms unfolding sdiv2_eq by (simp_all, linarith+)

subsection \<open>The table invariant, by index\<close>

lemma table_inv_Cons_all:
  "table_inv (t # ts) \<Longrightarrow> x \<in> set ts \<Longrightarrow> last_cp t < first x"
proof (induction ts arbitrary: t)
  case Nil
  then show ?case by simp
next
  case (Cons t' ts)
  from Cons.prems(1) have a: "last_cp t < first t'" and b: "first t' \<le> last_cp t'"
    and c: "table_inv (t' # ts)"
    by (cases ts; simp)+
  show ?case
  proof (cases "x = t'")
    case True
    with a show ?thesis by simp
  next
    case False
    with Cons.prems(2) have "x \<in> set ts" by simp
    with Cons.IH [OF c] have "last_cp t' < first x" .
    with a b show ?thesis by simp
  qed
qed

lemma table_inv_tl: "table_inv (t # ts) \<Longrightarrow> table_inv ts"
  by (cases ts) simp_all

lemma table_inv_hd: "table_inv (t # ts) \<Longrightarrow> first t \<le> last_cp t"
  by (cases ts) simp_all

lemma table_inv_nth:
  "table_inv table \<Longrightarrow> i < length table \<Longrightarrow> first (table ! i) \<le> last_cp (table ! i)"
proof (induction table arbitrary: i)
  case Nil
  then show ?case by simp
next
  case (Cons t ts)
  then show ?case
    by (cases i) (auto dest: table_inv_tl table_inv_hd)
qed

lemma table_inv_mono:
  "table_inv table \<Longrightarrow> i < j \<Longrightarrow> j < length table \<Longrightarrow> last_cp (table ! i) < first (table ! j)"
proof (induction table arbitrary: i j)
  case Nil
  then show ?case by simp
next
  case (Cons t ts)
  from Cons.prems obtain j' where j: "j = Suc j'" and j': "j' < length ts"
    by (cases j) auto
  show ?case
  proof (cases i)
    case 0
    from j' have "ts ! j' \<in> set ts" by simp
    with Cons.prems(1) have "last_cp t < first (ts ! j')" by (rule table_inv_Cons_all)
    with 0 j show ?thesis by simp
  next
    case (Suc i')
    with Cons.prems j have "i' < j'" by simp
    with Cons.IH [OF table_inv_tl [OF Cons.prems(1)] _ j'] Suc j show ?thesis by simp
  qed
qed

lemma in_table_nth:
  "in_table ucs table \<longleftrightarrow> (\<exists>i<length table. first (table ! i) \<le> ucs \<and> ucs \<le> last_cp (table ! i))"
  by (simp add: in_table_def list_ex_length)

lemma bisearch_loop_correct:
  "table_inv table \<Longrightarrow> length table \<le> 2 ^ 30 \<Longrightarrow> 0 \<le> lo \<Longrightarrow> hi < int (length table) \<Longrightarrow>
   lo \<le> hi + 1 \<Longrightarrow>
   (\<forall>i. i < nat lo \<longrightarrow> last_cp (table ! i) < ucs) \<Longrightarrow>
   (\<forall>i. nat (hi + 1) \<le> i \<and> i < length table \<longrightarrow> ucs < first (table ! i)) \<Longrightarrow>
   bisearch_loop ucs table lo hi = Inr (if in_table ucs table then 1 else 0)"
proof (induction ucs table lo hi rule: bisearch_loop.induct)
  case (1 ucs table lo hi)
  note inv = \<open>table_inv table\<close> and len = \<open>length table \<le> 2 ^ 30\<close>
  note below = \<open>\<forall>i. i < nat lo \<longrightarrow> last_cp (table ! i) < ucs\<close>
  note above = \<open>\<forall>i. nat (hi + 1) \<le> i \<and> i < length table \<longrightarrow> ucs < first (table ! i)\<close>
  show ?case
  proof (cases "lo \<le> hi")
    case False
    with \<open>lo \<le> hi + 1\<close> have eq: "hi + 1 = lo" by simp
    have "\<not> in_table ucs table"
    proof
      assume "in_table ucs table"
      then obtain i where i: "i < length table" "first (table ! i) \<le> ucs" "ucs \<le> last_cp (table ! i)"
        by (auto simp: in_table_nth)
      show False
      proof (cases "i < nat lo")
        case True
        with below have "last_cp (table ! i) < ucs" by blast
        with i(3) show False by simp
      next
        case False
        with eq i(1) have "nat (hi + 1) \<le> i \<and> i < length table" by simp
        with above have "ucs < first (table ! i)" by blast
        with i(2) show False by simp
      qed
    qed
    with False show ?thesis by (subst bisearch_loop.simps) simp
  next
    case True
    define mid where "mid = (lo + hi) sdiv 2"
    from True \<open>0 \<le> lo\<close> \<open>hi < int (length table)\<close> len
    have sum: "c_int (lo + hi) = Inr (lo + hi)"
      by (simp add: c_int_def)
    from True have mid: "lo \<le> mid" "mid \<le> hi"
      unfolding mid_def by (rule sdiv2_between)+
    with \<open>0 \<le> lo\<close> \<open>hi < int (length table)\<close>
    have at: "at_index table mid = Inr (table ! nat mid)" and midlen: "nat mid < length table"
      by (simp_all add: at_index_def)
    from mid \<open>0 \<le> lo\<close> \<open>hi < int (length table)\<close> len
    have inc: "c_int (mid + 1) = Inr (mid + 1)" and dec: "c_int (mid - 1) = Inr (mid - 1)"
      by (simp_all add: c_int_def)
    consider (right) "ucs > last_cp (table ! nat mid)"
      | (left) "\<not> ucs > last_cp (table ! nat mid)" "ucs < first (table ! nat mid)"
      | (found) "\<not> ucs > last_cp (table ! nat mid)" "\<not> ucs < first (table ! nat mid)"
      by blast
    then show ?thesis
    proof cases
      case right
      have below': "\<forall>i. i < nat (mid + 1) \<longrightarrow> last_cp (table ! i) < ucs"
      proof (intro allI impI)
        fix i assume "i < nat (mid + 1)"
        with mid \<open>0 \<le> lo\<close> have "i < nat mid \<or> i = nat mid" by auto
        then show "last_cp (table ! i) < ucs"
        proof
          assume lt: "i < nat mid"
          from table_inv_mono [OF inv lt midlen] table_inv_nth [OF inv midlen] right
          show ?thesis by simp
        next
          assume "i = nat mid"
          with right show ?thesis by simp
        qed
      qed
      have "bisearch_loop ucs table (mid + 1) hi = Inr (if in_table ucs table then 1 else 0)"
        using True sum mid_def at right inc inv len mid \<open>0 \<le> lo\<close> \<open>hi < int (length table)\<close> below' above
        by (intro "1.IH"(1) [of "lo + hi" mid "table ! nat mid" "mid + 1"]) simp_all
      with True sum at right inc show ?thesis
        by (subst bisearch_loop.simps) (simp add: mid_def [symmetric] Let_def)
    next
      case left
      have above': "\<forall>i. nat (mid - 1 + 1) \<le> i \<and> i < length table \<longrightarrow> ucs < first (table ! i)"
      proof (intro allI impI)
        fix i assume i: "nat (mid - 1 + 1) \<le> i \<and> i < length table"
        then have "i = nat mid \<or> nat mid < i" by auto
        then show "ucs < first (table ! i)"
        proof
          assume "i = nat mid"
          with left show ?thesis by simp
        next
          assume gt: "nat mid < i"
          from i have "i < length table" by simp
          from table_inv_mono [OF inv gt this] table_inv_nth [OF inv midlen] left
          show ?thesis by simp
        qed
      qed
      have "bisearch_loop ucs table lo (mid - 1) = Inr (if in_table ucs table then 1 else 0)"
        using True sum mid_def at left dec inv len mid \<open>0 \<le> lo\<close> \<open>hi < int (length table)\<close> below above'
        by (intro "1.IH"(2) [of "lo + hi" mid "table ! nat mid" "mid - 1"]) simp_all
      with True sum at left dec show ?thesis
        by (subst bisearch_loop.simps) (simp add: mid_def [symmetric] Let_def)
    next
      case found
      with midlen have "in_table ucs table"
        by (auto simp: in_table_nth intro!: exI [of _ "nat mid"])
      with True sum at found show ?thesis
        by (subst bisearch_loop.simps) (simp add: mid_def [symmetric] Let_def)
    qed
  qed
qed


lemma bisearch_correct:
  assumes ne: "table \<noteq> []" and inv: "table_inv table" and len: "length table \<le> 2 ^ 30"
  shows "bisearch ucs table (int (length table) - 1) = Inr (if in_table ucs table then 1 else 0)"
proof -
  define m where "m = length table - 1"
  from ne have "0 < length table" by simp
  then have m: "m < length table" "int (length table) - 1 = int m"
    unfolding m_def by linarith+
  from ne have at0: "at_index table 0 = Inr (table ! 0)"
    by (simp add: at_index_def)
  from m have atm: "at_index table (int m) = Inr (table ! m)"
    by (simp add: at_index_def)
  consider (low) "ucs < first (table ! 0)"
    | (high) "\<not> ucs < first (table ! 0)" "ucs > last_cp (table ! m)"
    | (search) "\<not> ucs < first (table ! 0)" "\<not> ucs > last_cp (table ! m)"
    by blast
  then show ?thesis
  proof cases
    case low
    have "\<not> in_table ucs table"
    proof
      assume "in_table ucs table"
      then obtain i where i: "i < length table" "first (table ! i) \<le> ucs" "ucs \<le> last_cp (table ! i)"
        by (auto simp: in_table_nth)
      show False
      proof (cases "i = 0")
        case True
        with low i(2) show False by simp
      next
        case False
        then have "0 < i" by simp
        from table_inv_mono [OF inv this i(1)] table_inv_nth [OF inv, of 0] ne low i(2)
        show False by simp
      qed
    qed
    with low at0 show ?thesis by (simp add: bisearch_def)
  next
    case high
    have "\<not> in_table ucs table"
    proof
      assume "in_table ucs table"
      then obtain i where i: "i < length table" "first (table ! i) \<le> ucs" "ucs \<le> last_cp (table ! i)"
        by (auto simp: in_table_nth)
      show False
      proof (cases "i = m")
        case True
        with high i(3) show False by simp
      next
        case False
        with i(1) have "i < m" by (simp add: m_def)
        from table_inv_mono [OF inv this m(1)] table_inv_nth [OF inv m(1)] high i(3)
        show False by simp
      qed
    qed
    with high at0 atm m show ?thesis by (simp add: bisearch_def)
  next
    case search
    from m have "nat (int m + 1) = length table" by linarith
    then have "\<forall>i. nat (int m + 1) \<le> i \<and> i < length table \<longrightarrow> ucs < first (table ! i)"
      by (auto simp only: not_le [symmetric])
    with inv len m
    have "bisearch_loop ucs table 0 (int m) = Inr (if in_table ucs table then 1 else 0)"
      by (intro bisearch_loop_correct) simp_all
    with search at0 atm m show ?thesis by (simp add: bisearch_def)
  qed
qed

lemma table_inv_combining: "table_inv combining"
  unfolding combining_def by simp

lemma table_inv_wide: "table_inv wide"
  unfolding wide_def by simp

lemma length_combining: "length combining = 278"
  unfolding combining_def by simp

lemma length_wide: "length wide = 35"
  unfolding wide_def by simp

lemma bisearch_combining:
  "bisearch ucs combining (int (length combining) - 1) = Inr (if in_table ucs combining then 1 else 0)"
  by (rule bisearch_correct) (simp_all add: table_inv_combining length_combining, simp add: combining_def)

lemma bisearch_wide:
  "bisearch ucs wide (int (length wide) - 1) = Inr (if in_table ucs wide then 1 else 0)"
  by (rule bisearch_correct) (simp_all add: table_inv_wide length_wide, simp add: wide_def)

text \<open>The classifier as a decision chain over table membership.\<close>

lemma mk_wcwidth_eq:
  "mk_wcwidth ucs =
     Inr (if ucs < 0x0300 then
            (if ucs = 0 then 0
             else if ucs < 32 \<or> (ucs \<ge> 0x7F \<and> ucs < 0xA0) then - 1 else 1)
          else if in_table ucs combining then 0
          else if ucs < 0x1100 then 1
          else if ucs \<ge> 0x1160 \<and> ucs \<le> 0x11FF then 0
          else if in_table ucs wide then 2 else 1)"
  by (simp add: mk_wcwidth_def bisearch_combining bisearch_wide c_int_def)

lemma mk_wcwidth_0x07: "mk_wcwidth 0x07 = Inr (- 1)"
  by (simp add: mk_wcwidth_def)

lemma mk_wcwidth_0x41: "mk_wcwidth 0x41 = Inr 1"
  by (simp add: mk_wcwidth_def)

lemma mk_wcwidth_0x4E2D: "mk_wcwidth 0x4E2D = Inr 2"
  by (simp add: mk_wcwidth_eq in_table_def combining_def wide_def)

subsection \<open>The classifier\<close>

text \<open>
  C1: the classifier is total. For every 32-bit code point \<open>c\<close>, \<open>mk_wcwidth c\<close>
  returns a value (no fault), and the value is one of -1, 0, 1, 2. The function is a
  pure function of its argument and the two constant tables.
\<close>

theorem mk_wcwidth_total:
  "mk_wcwidth c = Inr (- 1) \<or> mk_wcwidth c = Inr 0 \<or> mk_wcwidth c = Inr 1 \<or> mk_wcwidth c = Inr 2"
  by (simp add: mk_wcwidth_eq)

theorem mk_wcwidth_total_witness:
  "mk_wcwidth 0x4E2D = Inr (- 1) \<or> mk_wcwidth 0x4E2D = Inr 0 \<or> mk_wcwidth 0x4E2D = Inr 1 \<or>
   mk_wcwidth 0x4E2D = Inr 2"
  by (rule mk_wcwidth_total)

text \<open>
  C6: the fast path for low code points. \<open>mk_wcwidth 0 = 0\<close>; every \<open>c\<close> in
  \<open>[1, 0x1F]\<close> and in \<open>[0x7F, 0x9F]\<close> has width -1; every other \<open>c\<close> below
  \<open>0x300\<close> has width 1, the soft hyphen \<open>0xAD\<close> among them.
\<close>

theorem mk_wcwidth_low:
  "mk_wcwidth 0 = Inr 0 \<and>
   ((1 \<le> c \<and> c \<le> 0x1F) \<or> (0x7F \<le> c \<and> c \<le> 0x9F) \<longrightarrow> mk_wcwidth c = Inr (- 1)) \<and>
   (c < 0x300 \<and> c \<noteq> 0 \<and> \<not> (1 \<le> c \<and> c \<le> 0x1F) \<and> \<not> (0x7F \<le> c \<and> c \<le> 0x9F)
      \<longrightarrow> mk_wcwidth c = Inr 1) \<and>
   mk_wcwidth 0xAD = Inr 1"
proof (intro conjI impI)
  show "mk_wcwidth 0 = Inr 0" by (simp add: mk_wcwidth_def)
  show "mk_wcwidth 0xAD = Inr 1" by (simp add: mk_wcwidth_def)
  show "mk_wcwidth c = Inr (- 1)" if "(1 \<le> c \<and> c \<le> 0x1F) \<or> (0x7F \<le> c \<and> c \<le> 0x9F)"
    using that unfolding mk_wcwidth_def word_le_nat_alt word_less_nat_alt
    by (auto simp: unat_eq_0)
  show "mk_wcwidth c = Inr 1"
    if "c < 0x300 \<and> c \<noteq> 0 \<and> \<not> (1 \<le> c \<and> c \<le> 0x1F) \<and> \<not> (0x7F \<le> c \<and> c \<le> 0x9F)"
  proof -
    from that have "0 < unat c" by (simp add: unat_gt_0)
    with that show ?thesis
      unfolding mk_wcwidth_def word_le_nat_alt word_less_nat_alt by auto
  qed
qed

theorem mk_wcwidth_low_witness:
  "(1 \<le> (0x1B :: u32) \<and> (0x1B :: u32) \<le> 0x1F) \<and> mk_wcwidth 0x1B = Inr (- 1) \<and>
   ((0x7E :: u32) < 0x300 \<and> (0x7E :: u32) \<noteq> 0 \<and> \<not> (1 \<le> (0x7E :: u32) \<and> (0x7E :: u32) \<le> 0x1F) \<and>
      \<not> (0x7F \<le> (0x7E :: u32) \<and> (0x7E :: u32) \<le> 0x9F)) \<and> mk_wcwidth 0x7E = Inr 1"
  using mk_wcwidth_low [of "0x1B"] mk_wcwidth_low [of "0x7E"] by simp

subsection \<open>The tables\<close>

text \<open>
  C9: both constant tables satisfy the table invariant. Every entry has
  \<open>first \<le> last\<close>, and each entry ends strictly before the next one starts:
  \<open>table[i].last < table[i+1].first\<close>.
\<close>

theorem tables_inv:
  "(\<forall>i<length combining. first (combining ! i) \<le> last_cp (combining ! i)) \<and>
   (\<forall>i. Suc i < length combining \<longrightarrow> last_cp (combining ! i) < first (combining ! Suc i)) \<and>
   (\<forall>i<length wide. first (wide ! i) \<le> last_cp (wide ! i)) \<and>
   (\<forall>i. Suc i < length wide \<longrightarrow> last_cp (wide ! i) < first (wide ! Suc i))"
  using table_inv_nth [OF table_inv_combining] table_inv_mono [OF table_inv_combining]
    table_inv_nth [OF table_inv_wide] table_inv_mono [OF table_inv_wide]
  by simp

theorem tables_inv_witness:
  "Suc 16 < length wide \<and> first (wide ! 16) \<le> last_cp (wide ! 16) \<and>
   last_cp (wide ! 16) < first (wide ! Suc 16) \<and>
   Suc 1 < length combining \<and> first (combining ! 1) \<le> last_cp (combining ! 1) \<and>
   last_cp (combining ! 1) < first (combining ! Suc 1)"
proof -
  have "Suc 16 < length wide" "Suc 1 < length combining" "16 < length wide" "1 < length combining"
    by (simp_all add: length_wide length_combining)
  with tables_inv show ?thesis by blast
qed

subsection \<open>Membership in the two tables\<close>

lemma not_in_table_outside:
  "list_all (\<lambda>t. last_cp t < lo \<or> hi < first t) table \<Longrightarrow> lo \<le> c \<Longrightarrow> c \<le> hi \<Longrightarrow>
   \<not> in_table c table"
  by (induction table) (auto simp: in_table_def)

lemma in_table_ge:
  "list_all (\<lambda>t. lo \<le> first t) table \<Longrightarrow> in_table c table \<Longrightarrow> lo \<le> c"
  by (induction table) (auto simp: in_table_def)

lemma wide_from_0x1100: "list_all (\<lambda>t. 0x1100 \<le> first t) wide"
  unfolding wide_def by simp

lemma wide_outside_jamo: "list_all (\<lambda>t. last_cp t < 0x1160 \<or> 0x11FF < first t) wide"
  unfolding wide_def by simp

lemma combining_outside_jamo: "list_all (\<lambda>t. last_cp t < 0x1160 \<or> 0x11FF < first t) combining"
  unfolding combining_def by simp

lemma combining_outside_cjk: "list_all (\<lambda>t. last_cp t < 0x4E00 \<or> 0xA48C < first t) combining"
  unfolding combining_def by simp

lemma combining_outside_hangul: "list_all (\<lambda>t. last_cp t < 0xAC00 \<or> 0xD7A3 < first t) combining"
  unfolding combining_def by simp

lemma combining_tl_from_0x300: "list_all (\<lambda>t. 0x300 \<le> first t) (tl combining)"
  unfolding combining_def by simp

lemma in_table_Cons:
  "in_table c (t # ts) \<longleftrightarrow> (first t \<le> c \<and> c \<le> last_cp t) \<or> in_table c ts"
  by (simp add: in_table_def)

lemma in_table_combining_ge:
  assumes "in_table c combining" and "c \<noteq> 0xAD"
  shows "0x300 \<le> c"
proof -
  have "combining = \<lparr>first = 0xAD, last_cp = 0xAD\<rparr> # tl combining"
    unfolding combining_def by simp
  with assms(1) have "in_table c (\<lparr>first = 0xAD, last_cp = 0xAD\<rparr> # tl combining)"
    by metis
  with assms(2) have "in_table c (tl combining)"
    by (auto simp: in_table_Cons)
  with combining_tl_from_0x300 show ?thesis by (rule in_table_ge)
qed

lemma wide_width:
  assumes "in_table c wide" and "\<not> in_table c combining"
  shows "mk_wcwidth c = Inr 2"
proof -
  from wide_from_0x1100 assms(1) have ge: "0x1100 \<le> c" by (rule in_table_ge)
  then have "\<not> c < 0x1100" "\<not> c < 0x300"
    unfolding word_le_nat_alt word_less_nat_alt by simp_all
  moreover have "\<not> (0x1160 \<le> c \<and> c \<le> 0x11FF)"
    using not_in_table_outside [OF wide_outside_jamo, of c] assms(1) by blast
  ultimately show ?thesis using assms by (simp add: mk_wcwidth_eq)
qed

text \<open>
  C4, as amended: every code point that lies in an interval of the wide table and in
  no interval of the zero-width table has width 2; so have all code points of the
  ranges \<open>0x4E00-0xA48C\<close> and \<open>0xAC00-0xD7A3\<close>. (The zero-width table is searched
  first, and the two tables overlap, as the last theorem of this block shows at \<open>0x3099\<close>.)
\<close>

theorem mk_wcwidth_wide:
  "(in_table c wide \<and> \<not> in_table c combining \<longrightarrow> mk_wcwidth c = Inr 2) \<and>
   ((0x4E00 \<le> c \<and> c \<le> 0xA48C) \<or> (0xAC00 \<le> c \<and> c \<le> 0xD7A3) \<longrightarrow> mk_wcwidth c = Inr 2)"
proof (intro conjI impI)
  show "mk_wcwidth c = Inr 2" if "in_table c wide \<and> \<not> in_table c combining"
    using that by (simp add: wide_width)
  show "mk_wcwidth c = Inr 2" if r: "(0x4E00 \<le> c \<and> c \<le> 0xA48C) \<or> (0xAC00 \<le> c \<and> c \<le> 0xD7A3)"
  proof -
    from r have "in_table c wide"
      unfolding in_table_def wide_def by auto
    moreover from r have "\<not> in_table c combining"
      using not_in_table_outside [OF combining_outside_cjk, of c]
        not_in_table_outside [OF combining_outside_hangul, of c] by blast
    ultimately show ?thesis by (rule wide_width)
  qed
qed

theorem mk_wcwidth_wide_witness:
  "in_table 0xFF01 wide \<and> \<not> in_table 0xFF01 combining \<and> mk_wcwidth 0xFF01 = Inr 2 \<and>
   (0x4E00 :: u32) \<le> 0x4E2D \<and> (0x4E2D :: u32) \<le> 0xA48C \<and> mk_wcwidth 0x4E2D = Inr 2"
proof -
  have "in_table 0xFF01 wide" by (simp add: in_table_def wide_def)
  moreover have "\<not> in_table 0xFF01 combining" by (simp add: in_table_def combining_def)
  moreover have "(0x4E00 :: u32) \<le> 0x4E2D \<and> (0x4E2D :: u32) \<le> 0xA48C" by simp
  ultimately show ?thesis
    using mk_wcwidth_wide [of "0xFF01"] mk_wcwidth_wide [of "0x4E2D"] by blast
qed

theorem mk_wcwidth_wide_counterexample:
  "in_table 0x3099 wide \<and> mk_wcwidth 0x3099 = Inr 0"
  by (simp add: mk_wcwidth_eq in_table_def wide_def combining_def)

text \<open>
  C5, as amended: every code point other than \<open>0x00AD\<close> that lies in an interval of the
  zero-width table has width 0; so have all code points of the range \<open>0x0300-0x036F\<close>.
  (The soft hyphen \<open>0x00AD\<close> is an entry of the table, and the fast path for code points
  below \<open>0x300\<close> gives it width 1, as the last theorem of this block shows.)
\<close>

theorem mk_wcwidth_combining:
  "(in_table c combining \<and> c \<noteq> 0xAD \<longrightarrow> mk_wcwidth c = Inr 0) \<and>
   (0x0300 \<le> c \<and> c \<le> 0x036F \<longrightarrow> mk_wcwidth c = Inr 0)"
proof (intro conjI impI)
  show a: "mk_wcwidth c = Inr 0" if "in_table c combining \<and> c \<noteq> 0xAD" for c
  proof -
    from that have "0x300 \<le> c" by (simp add: in_table_combining_ge)
    then have "\<not> c < 0x300"
      unfolding word_le_nat_alt word_less_nat_alt by simp
    with that show ?thesis by (simp add: mk_wcwidth_eq)
  qed
  show "mk_wcwidth c = Inr 0" if r: "0x0300 \<le> c \<and> c \<le> 0x036F"
  proof -
    from r have "in_table c combining"
      unfolding in_table_def combining_def by simp
    moreover from r have "c \<noteq> 0xAD" by auto
    ultimately show ?thesis using a by blast
  qed
qed

theorem mk_wcwidth_combining_witness:
  "in_table 0x200B combining \<and> (0x200B :: u32) \<noteq> 0xAD \<and> mk_wcwidth 0x200B = Inr 0 \<and>
   (0x0300 :: u32) \<le> 0x0301 \<and> (0x0301 :: u32) \<le> 0x036F \<and> mk_wcwidth 0x0301 = Inr 0"
proof -
  have "in_table 0x200B combining" by (simp add: in_table_def combining_def)
  moreover have "(0x200B :: u32) \<noteq> 0xAD" by simp
  moreover have "(0x0300 :: u32) \<le> 0x0301 \<and> (0x0301 :: u32) \<le> 0x036F" by simp
  ultimately show ?thesis
    using mk_wcwidth_combining [of "0x200B"] mk_wcwidth_combining [of "0x0301"] by blast
qed

theorem mk_wcwidth_combining_counterexample:
  "in_table 0xAD combining \<and> mk_wcwidth 0xAD = Inr 1"
  by (simp add: mk_wcwidth_def in_table_def combining_def)

text \<open>
  C8: every code point in \<open>[0x1160, 0x11FF]\<close> (Hangul Jamo medial vowels and final
  consonants) has width 0, and none of them lies in the zero-width table.
\<close>

theorem mk_wcwidth_jamo:
  "0x1160 \<le> c \<and> c \<le> 0x11FF \<longrightarrow> mk_wcwidth c = Inr 0 \<and> \<not> in_table c combining"
proof
  assume r: "0x1160 \<le> c \<and> c \<le> 0x11FF"
  then have "\<not> c < 0x1100" "\<not> c < 0x300"
    unfolding word_le_nat_alt word_less_nat_alt by simp_all
  moreover from r have "\<not> in_table c combining"
    using not_in_table_outside [OF combining_outside_jamo, of c] by blast
  ultimately show "mk_wcwidth c = Inr 0 \<and> \<not> in_table c combining"
    using r by (simp add: mk_wcwidth_eq)
qed

theorem mk_wcwidth_jamo_witness:
  "(0x1160 :: u32) \<le> 0x11A8 \<and> (0x11A8 :: u32) \<le> 0x11FF \<and> mk_wcwidth 0x11A8 = Inr 0 \<and>
   \<not> in_table 0x11A8 combining"
  using mk_wcwidth_jamo [of "0x11A8"] by simp

lemma mk_wcwidth_0x20A9: "mk_wcwidth 0x20A9 = Inr 1"
  by (simp add: mk_wcwidth_eq in_table_def combining_def wide_def)

lemma mk_wcwidth_0xA1: "mk_wcwidth 0xA1 = Inr 1"
  by (simp add: mk_wcwidth_def)

text \<open>
  C7: \<open>mk_wcwidth_cjk c\<close> is 2 when \<open>mk_wcwidth c\<close> is 1 and \<open>c\<close> lies in
  \<open>[0x00A1, 0xFF61)\<close> and is not \<open>0x20A9\<close>; in every other case it is \<open>mk_wcwidth c\<close>.
  The Won sign \<open>0x20A9\<close> keeps width 1.
\<close>

theorem mk_wcwidth_cjk_eq:
  "mk_wcwidth_cjk c =
     (if mk_wcwidth c = Inr 1 \<and> 0x00A1 \<le> c \<and> c < 0xFF61 \<and> c \<noteq> 0x20A9 then Inr 2
      else mk_wcwidth c) \<and>
   mk_wcwidth_cjk 0x20A9 = Inr 1"
  by (auto simp: mk_wcwidth_cjk_def mk_wcwidth_0x20A9 split: sum.splits)

theorem mk_wcwidth_cjk_eq_witness:
  "mk_wcwidth 0xA1 = Inr 1 \<and> mk_wcwidth_cjk 0xA1 = Inr 2 \<and>
   mk_wcwidth 0x41 = Inr 1 \<and> mk_wcwidth_cjk 0x41 = Inr 1 \<and>
   mk_wcwidth 0x4E2D = Inr 2 \<and> mk_wcwidth_cjk 0x4E2D = Inr 2"
  using mk_wcwidth_cjk_eq [of "0xA1"] mk_wcwidth_cjk_eq [of "0x41"] mk_wcwidth_cjk_eq [of "0x4E2D"]
  by (simp add: mk_wcwidth_0xA1 mk_wcwidth_0x41 mk_wcwidth_0x4E2D)

subsection \<open>The binary search on any table\<close>

lemma table_inv_by_index:
  assumes "\<forall>i<length table. first (table ! i) \<le> last_cp (table ! i)"
    and "\<forall>i. Suc i < length table \<longrightarrow> last_cp (table ! i) < first (table ! Suc i)"
  shows "table_inv table"
  using assms
proof (induction table rule: table_inv.induct)
  case 1
  then show ?case by simp
next
  case (2 t)
  then show ?case by simp
next
  case (3 t t' ts)
  from "3.prems"(1) have a: "first t \<le> last_cp t" by auto
  from "3.prems"(2) have b: "last_cp t < first t'" by auto
  have "table_inv (t' # ts)"
  proof (rule "3.IH")
    show "\<forall>i<length (t' # ts). first ((t' # ts) ! i) \<le> last_cp ((t' # ts) ! i)"
      using "3.prems"(1) by auto
    show "\<forall>i. Suc i < length (t' # ts) \<longrightarrow> last_cp ((t' # ts) ! i) < first ((t' # ts) ! Suc i)"
    proof (intro allI impI)
      fix i assume "Suc i < length (t' # ts)"
      then have "Suc (Suc i) < length (t # t' # ts)" by simp
      with "3.prems"(2) have "last_cp ((t # t' # ts) ! Suc i) < first ((t # t' # ts) ! Suc (Suc i))"
        by blast
      then show "last_cp ((t' # ts) ! i) < first ((t' # ts) ! Suc i)" by simp
    qed
  qed
  with a b show ?case by simp
qed

lemma length_singleton_table: "length (singleton_table n) = n"
  by (simp add: singleton_table_def)

lemma nth_singleton_table:
  "i < n \<Longrightarrow> singleton_table n ! i = \<lparr>first = of_nat i, last_cp = of_nat i\<rparr>"
  by (simp add: singleton_table_def)

lemma at_index_singleton_table:
  "0 \<le> i \<Longrightarrow> i < int n \<Longrightarrow>
   at_index (singleton_table n) i = Inr \<lparr>first = of_nat (nat i), last_cp = of_nat (nat i)\<rparr>"
  by (simp add: at_index_def length_singleton_table nth_singleton_table)

lemma table_inv_singleton_table:
  assumes "n \<le> 2 ^ 32"
  shows "table_inv (singleton_table n)"
proof (rule table_inv_by_index)
  show "\<forall>i<length (singleton_table n).
          first (singleton_table n ! i) \<le> last_cp (singleton_table n ! i)"
    by (simp add: length_singleton_table nth_singleton_table)
  show "\<forall>i. Suc i < length (singleton_table n) \<longrightarrow>
          last_cp (singleton_table n ! i) < first (singleton_table n ! Suc i)"
  proof (intro allI impI)
    fix i assume "Suc i < length (singleton_table n)"
    then have i: "Suc i < n" by (simp add: length_singleton_table)
    with assms have "i < 2 ^ 32" "Suc i < 2 ^ 32" by simp_all
    then have "(of_nat i :: u32) < of_nat (Suc i)"
      by (simp add: word_of_nat_less_iff take_bit_nat_eq_self del: of_nat_Suc)
    with i show "last_cp (singleton_table n ! i) < first (singleton_table n ! Suc i)"
      by (simp add: nth_singleton_table del: of_nat_Suc)
  qed
qed

text \<open>Single steps of the loop, for evaluating it on a large table.\<close>

lemma bisearch_loop_overflow:
  "lo \<le> hi \<Longrightarrow> 2147483647 < lo + hi \<Longrightarrow> bisearch_loop ucs table lo hi = Inl IntOverflow"
  by (subst bisearch_loop.simps) (simp add: c_int_def)

lemma bisearch_loop_right:
  assumes "lo \<le> hi" and "c_int (lo + hi) = Inr s" and "at_index table (s sdiv 2) = Inr t"
    and "last_cp t < ucs" and "c_int (s sdiv 2 + 1) = Inr lo'"
  shows "bisearch_loop ucs table lo hi = bisearch_loop ucs table lo' hi"
  using assms by (subst bisearch_loop.simps) (simp add: Let_def)

text \<open>
  C3, as amended: for every code point \<open>ucs\<close> and every non-empty table of at most
  \<open>2^30\<close> intervals that satisfies the table invariant, \<^verbatim>\<open>bisearch\<close> (called with the
  index of the last entry) terminates without fault and returns 1 if some interval
  \<open>[first, last]\<close> of the table has \<open>first \<le> ucs \<le> last\<close>, and 0 otherwise.
  (On a larger table the sum \<^verbatim>\<open>min + max\<close> of two \<^verbatim>\<open>int\<close> indices can exceed
  \<open>2^31 - 1\<close>, as the last theorem of this block shows on a table of \<open>2^31 - 1\<close>
  intervals.)
\<close>

theorem bisearch_iff:
  "table \<noteq> [] \<Longrightarrow> table_inv table \<Longrightarrow> length table \<le> 2 ^ 30 \<Longrightarrow>
   bisearch ucs table (int (length table) - 1) =
     Inr (if (\<exists>t\<in>set table. first t \<le> ucs \<and> ucs \<le> last_cp t) then 1 else 0)"
  by (simp add: bisearch_correct in_table_def list_ex_iff)

theorem bisearch_iff_witness:
  "wide \<noteq> [] \<and> table_inv wide \<and> length wide \<le> 2 ^ 30 \<and>
   bisearch 0x4E2D wide (int (length wide) - 1) = Inr 1 \<and>
   bisearch 0x4DC0 wide (int (length wide) - 1) = Inr 0"
proof -
  have a: "wide \<noteq> []" by (simp add: wide_def)
  have b: "length wide \<le> 2 ^ 30" by (simp add: length_wide)
  have c: "\<exists>t\<in>set wide. first t \<le> 0x4E2D \<and> 0x4E2D \<le> last_cp t"
    by (simp add: wide_def)
  have d: "\<not> (\<exists>t\<in>set wide. first t \<le> 0x4DC0 \<and> 0x4DC0 \<le> last_cp t)"
    by (simp add: wide_def)
  from bisearch_iff [OF a table_inv_wide b, of "0x4E2D"] bisearch_iff [OF a table_inv_wide b, of "0x4DC0"]
    a b c d table_inv_wide
  show ?thesis by simp
qed

theorem bisearch_iff_counterexample:
  "singleton_table 2147483647 \<noteq> [] \<and> table_inv (singleton_table 2147483647) \<and>
   in_table 2147483646 (singleton_table 2147483647) \<and>
   bisearch 2147483646 (singleton_table 2147483647) (int (length (singleton_table 2147483647)) - 1)
     = Inl IntOverflow"
proof (intro conjI)
  show "singleton_table 2147483647 \<noteq> []"
    using length_singleton_table [of 2147483647] by auto
  show "table_inv (singleton_table 2147483647)"
    by (rule table_inv_singleton_table) simp
  show "in_table 2147483646 (singleton_table 2147483647)"
    unfolding in_table_nth length_singleton_table
    by (rule exI [of _ 2147483646]) (simp add: nth_singleton_table)
  have "bisearch_loop 2147483646 (singleton_table 2147483647) 0 2147483646 =
        bisearch_loop 2147483646 (singleton_table 2147483647) 1073741824 2147483646"
    by (rule bisearch_loop_right
        [where s = 2147483646 and t = "\<lparr>first = 1073741823, last_cp = 1073741823\<rparr>"])
      (simp_all add: sdiv2_eq at_index_singleton_table c_int_def)
  also have "\<dots> = Inl IntOverflow"
    by (rule bisearch_loop_overflow) simp_all
  finally have l1:
    "bisearch_loop 2147483646 (singleton_table 2147483647) 0 2147483646 = Inl IntOverflow" .
  show "bisearch 2147483646 (singleton_table 2147483647)
          (int (length (singleton_table 2147483647)) - 1) = Inl IntOverflow"
    by (simp add: bisearch_def length_singleton_table at_index_singleton_table l1)
qed

subsection \<open>The string accumulators\<close>

lemma traversed_Nil: "traversed [] n = []"
  by (simp add: traversed_def)

lemma traversed_Cons:
  "traversed (c # pwcs) n = (if c = 0 \<or> n = 0 then [] else c # traversed pwcs (n - 1))"
  by (cases n) (simp_all add: traversed_def)

text \<open>
  A sequence that holds a zero (a terminated string), or has more than \<open>n\<close> elements,
  has an element after the traversed ones.
\<close>

lemma traversed_short:
  assumes "0 \<in> set pwcs \<or> n < length pwcs"
  shows "length (traversed pwcs n) < length pwcs"
proof (cases "n < length pwcs")
  case True
  have "length (traversed pwcs n) \<le> length (take n pwcs)"
    unfolding traversed_def by (rule length_takeWhile_le)
  with True show ?thesis by simp
next
  case False
  with assms have z: "0 \<in> set pwcs" and "take n pwcs = pwcs" by simp_all
  then have "traversed pwcs n = takeWhile (\<lambda>c. c \<noteq> 0) pwcs"
    by (simp add: traversed_def)
  moreover from z have "length (takeWhile (\<lambda>c. c \<noteq> 0) pwcs) < length pwcs"
    by (induction pwcs) auto
  ultimately show ?thesis by simp
qed

lemma mk_wcwidth_range: "\<exists>w. mk_wcwidth c = Inr w \<and> - 1 \<le> w \<and> w \<le> 2"
  by (simp add: mk_wcwidth_eq)


lemma c_int_small: "0 \<le> v \<Longrightarrow> v \<le> 2147483647 \<Longrightarrow> c_int v = Inr v"
  by (simp add: c_int_def)

subsection \<open>The widths of a list of code points\<close>

lemma widths_exist:
  assumes "\<And>c. \<exists>w. f c = Inr w \<and> - 1 \<le> w \<and> w \<le> (2 :: int)"
  shows "\<exists>ws. map f cs = map Inr ws"
proof (induction cs)
  case Nil
  then show ?case by simp
next
  case (Cons c cs)
  then obtain ws where "map f cs = map Inr ws" by blast
  moreover obtain w where "f c = Inr w" using assms by blast
  ultimately have "map f (c # cs) = map Inr (w # ws)" by simp
  then show ?case by blast
qed

lemma widths_range:
  assumes "\<And>c. \<exists>w. f c = Inr w \<and> - 1 \<le> w \<and> w \<le> (2 :: int)"
  shows "map f cs = map Inr ws \<Longrightarrow> \<forall>w\<in>set ws. - 1 \<le> w \<and> w \<le> 2"
proof (induction cs arbitrary: ws)
  case Nil
  then show ?case by simp
next
  case (Cons c cs)
  then obtain w ws' where ws: "ws = w # ws'" "f c = Inr w" "map f cs = map Inr ws'"
    by (cases ws) auto
  with assms [of c] Cons.IH [of ws'] show ?case by auto
qed


lemma widths_nonneg:
  assumes "\<And>c. \<exists>w. f c = Inr w \<and> - 1 \<le> w \<and> w \<le> (2 :: int)"
    and "map f cs = map Inr ws" and "- 1 \<notin> set ws"
  shows "0 \<le> sum_list ws"
proof (rule sum_list_nonneg)
  fix w assume "w \<in> set ws"
  with widths_range [of f, OF assms(1,2)] assms(3) have "- 1 \<le> w" "w \<noteq> - 1" by auto
  then show "0 \<le> w" by simp
qed

lemma sum_before_minus_one:
  "\<forall>w\<in>set ws. - 1 \<le> w \<Longrightarrow> 0 \<le> sum_list (takeWhile (\<lambda>w. w \<noteq> - 1) ws)"
  for ws :: "int list"
  by (induction ws) auto

lemma takeWhile_no_minus_one:
  "- 1 \<notin> set ws \<Longrightarrow> takeWhile (\<lambda>w. w \<noteq> - 1) ws = ws" for ws :: "int list"
  by (induction ws) auto

text \<open>
  The loop, in closed form. With \<open>ws\<close> the widths of the traversed elements: the
  accumulator overflows when the widths before the first -1 add up to more than
  \<open>2^31 - 1\<close>; otherwise a width of -1 gives -1; otherwise the result is the sum when
  the sequence has an element after the traversed ones, and a read past the end of the
  sequence when it has none.
\<close>

lemma mk_wcswidth_loop_eq:
  "map mk_wcwidth (traversed pwcs n) = map Inr ws \<Longrightarrow> 0 \<le> width \<Longrightarrow> width \<le> 2147483647 \<Longrightarrow>
   mk_wcswidth_loop pwcs n width =
     (if 2147483647 < width + sum_list (takeWhile (\<lambda>w. w \<noteq> - 1) ws) then Inl IntOverflow
      else if - 1 \<in> set ws then Inr (- 1)
      else if length (traversed pwcs n) < length pwcs then Inr (width + sum_list ws)
      else Inl OutOfBounds)"
proof (induction pwcs arbitrary: n width ws)
  case Nil
  then show ?case by (simp add: traversed_Nil)
next
  case (Cons c pwcs)
  show ?case
  proof (cases "c = 0 \<or> n = 0")
    case True
    with Cons.prems(1) have "ws = []" "traversed (c # pwcs) n = []"
      by (simp_all add: traversed_Cons)
    moreover from True have "mk_wcswidth_loop (c # pwcs) n width = Inr width"
      by auto
    ultimately show ?thesis using Cons.prems(3) by simp
  next
    case False
    then obtain n' where n: "n = Suc n'" and c: "c \<noteq> 0" by (cases n) auto
    then have tr: "traversed (c # pwcs) n = c # traversed pwcs n'"
      by (simp add: traversed_Cons)
    with Cons.prems(1) obtain w ws' where ws: "ws = w # ws'" and w: "mk_wcwidth c = Inr w"
      and ws': "map mk_wcwidth (traversed pwcs n') = map Inr ws'"
      by (cases ws) auto
    from w mk_wcwidth_range [of c] have range: "- 1 \<le> w" "w \<le> 2" by auto
    from widths_range [of mk_wcwidth, OF mk_wcwidth_range ws'] have rest: "0 \<le> sum_list (takeWhile (\<lambda>w. w \<noteq> - 1) ws')"
      by (intro sum_before_minus_one) auto
    show ?thesis
    proof (cases "w < 0")
      case True
      with range have "w = - 1" by simp
      with c n w ws Cons.prems(3) show ?thesis by simp
    next
      case nonneg: False
      show ?thesis
      proof (cases "width + w \<le> 2147483647")
        case True
        with nonneg Cons.prems(2) have ci: "c_int (width + w) = Inr (width + w)"
          by (intro c_int_small) simp_all
        from nonneg Cons.prems(2) True
        have "mk_wcswidth_loop pwcs n' (width + w) =
          (if 2147483647 < width + w + sum_list (takeWhile (\<lambda>w. w \<noteq> - 1) ws') then Inl IntOverflow
           else if - 1 \<in> set ws' then Inr (- 1)
           else if length (traversed pwcs n') < length pwcs then Inr (width + w + sum_list ws')
           else Inl OutOfBounds)"
          by (intro Cons.IH [OF ws']) simp_all
        with c n w ws nonneg ci tr show ?thesis by (simp add: add.assoc)
      next
        case False
        then have "c_int (width + w) = Inl IntOverflow"
          by (simp add: c_int_def)
        with c n w ws nonneg False rest show ?thesis by simp
      qed
    qed
  qed
qed







text \<open>One step of each loop, in a form that evaluates with a numeral for \<open>n\<close>.\<close>

lemma mk_wcswidth_loop_Cons:
  "mk_wcswidth_loop (c # pwcs) n width =
     (if c = 0 \<or> n = 0 then Inr width
      else
        (case mk_wcwidth c of
           Inl e \<Rightarrow> Inl e
         | Inr w \<Rightarrow>
            if w < 0 then Inr (- 1)
            else
              (case c_int (width + w) of
                 Inl e \<Rightarrow> Inl e
               | Inr width' \<Rightarrow> mk_wcswidth_loop pwcs (n - 1) width')))"
  by (cases n) (auto split: sum.splits)

lemma mk_wcswidth_cjk_loop_Cons:
  "mk_wcswidth_cjk_loop (c # pwcs) n width =
     (if c = 0 \<or> n = 0 then Inr width
      else
        (case mk_wcwidth_cjk c of
           Inl e \<Rightarrow> Inl e
         | Inr w \<Rightarrow>
            if w < 0 then Inr (- 1)
            else
              (case c_int (width + w) of
                 Inl e \<Rightarrow> Inl e
               | Inr width' \<Rightarrow> mk_wcswidth_cjk_loop pwcs (n - 1) width')))"
  by (cases n) (auto split: sum.splits)

lemma mk_wcwidth_0x42: "mk_wcwidth 0x42 = Inr 1"
  by (simp add: mk_wcwidth_def)

lemma mk_wcwidth_0x6587: "mk_wcwidth 0x6587 = Inr 2"
  by (simp add: mk_wcwidth_eq in_table_def combining_def wide_def)

text \<open>
  A string of \<open>k\<close> wide characters and a terminator: the accumulator \<^verbatim>\<open>width\<close>
  leaves the range of \<^verbatim>\<open>int\<close> when \<open>2 * k\<close> exceeds \<open>2^31 - 1\<close>.
\<close>

lemma mk_wcswidth_loop_wide_string:
  "0 \<le> width \<Longrightarrow> width \<le> 2147483647 \<Longrightarrow> k \<le> n \<Longrightarrow>
   mk_wcswidth_loop (replicate k 0x4E2D @ [0]) n width =
     (if width + 2 * int k \<le> 2147483647 then Inr (width + 2 * int k) else Inl IntOverflow)"
proof (induction k arbitrary: n width)
  case 0
  then show ?case by simp
next
  case (Suc k)
  from Suc.prems(3) obtain n' where n: "n = Suc n'" and k: "k \<le> n'" by (cases n) auto
  show ?case
  proof (cases "width + 2 \<le> 2147483647")
    case True
    with Suc.prems(1) have "c_int (width + 2) = Inr (width + 2)"
      by (simp add: c_int_def)
    moreover from True Suc.prems(1) k
    have "mk_wcswidth_loop (replicate k 0x4E2D @ [0]) n' (width + 2) =
            (if width + 2 + 2 * int k \<le> 2147483647 then Inr (width + 2 + 2 * int k)
             else Inl IntOverflow)"
      by (intro Suc.IH) simp_all
    ultimately show ?thesis using n by (simp add: mk_wcwidth_0x4E2D)
  next
    case False
    then have "c_int (width + 2) = Inl IntOverflow"
      by (simp add: c_int_def)
    with False n show ?thesis by (simp add: mk_wcwidth_0x4E2D)
  qed
qed

lemma mk_wcswidth_overflow:
  "mk_wcswidth (replicate 1073741824 0x4E2D @ [0]) 1073741824 = Inl IntOverflow"
  unfolding mk_wcswidth_def by (subst mk_wcswidth_loop_wide_string) simp_all

text \<open>
  C2, as amended: for every sequence and every limit \<open>n\<close>, with \<open>ws\<close> the widths of
  the traversed elements (those before the first zero among the first \<open>n\<close>): if some
  traversed element classifies as -1 and the widths before the first such element add
  up to at most \<open>2^31 - 1\<close>, \<^verbatim>\<open>mk_wcswidth\<close> returns -1 and no partial sum; if none
  classifies as -1, the widths add up to at most \<open>2^31 - 1\<close> and the sequence has an
  element after the traversed ones (the zero, or the element at position \<open>n\<close>), it
  returns the sum of the widths, which is not negative. In particular
  \<open>mk_wcswidth [0x41, 0x07, 0x42] 3 = -1\<close> and \<open>mk_wcswidth [0x41, 0] 5 = 1\<close>.
  (The loop reads \<^verbatim>\<open>*pwcs\<close> before it tests \<^verbatim>\<open>n\<close>, and the accumulator is an
  \<^verbatim>\<open>int\<close>: the last theorem of this block shows a sequence of one non-zero element,
  read past its end with \<open>n = 1\<close>, and a string of \<open>2^30\<close> wide characters, whose
  widths overflow the accumulator.)
\<close>

theorem mk_wcswidth_sum:
  "(\<exists>ws. map mk_wcwidth (traversed pwcs n) = map Inr ws \<and>
      (- 1 \<in> set ws \<and> sum_list (takeWhile (\<lambda>w. w \<noteq> - 1) ws) \<le> 2147483647 \<longrightarrow>
         mk_wcswidth pwcs n = Inr (- 1)) \<and>
      (- 1 \<notin> set ws \<and> sum_list ws \<le> 2147483647 \<and>
       length (traversed pwcs n) < length pwcs \<longrightarrow>
         0 \<le> sum_list ws \<and> mk_wcswidth pwcs n = Inr (sum_list ws))) \<and>
   mk_wcswidth [0x41, 0x07, 0x42] 3 = Inr (- 1) \<and>
   mk_wcswidth [0x41, 0] 5 = Inr 1"
proof (intro conjI)
  obtain ws where ws: "map mk_wcwidth (traversed pwcs n) = map Inr ws"
    using widths_exist [of mk_wcwidth, OF mk_wcwidth_range] by blast
  then have eq: "mk_wcswidth pwcs n =
     (if 2147483647 < 0 + sum_list (takeWhile (\<lambda>w. w \<noteq> - 1) ws) then Inl IntOverflow
      else if - 1 \<in> set ws then Inr (- 1)
      else if length (traversed pwcs n) < length pwcs then Inr (0 + sum_list ws)
      else Inl OutOfBounds)"
    unfolding mk_wcswidth_def by (rule mk_wcswidth_loop_eq) simp_all
  have a: "mk_wcswidth pwcs n = Inr (- 1)"
    if "- 1 \<in> set ws \<and> sum_list (takeWhile (\<lambda>w. w \<noteq> - 1) ws) \<le> 2147483647"
    using that eq by simp
  have b: "0 \<le> sum_list ws \<and> mk_wcswidth pwcs n = Inr (sum_list ws)"
    if h: "- 1 \<notin> set ws \<and> sum_list ws \<le> 2147483647 \<and>
           length (traversed pwcs n) < length pwcs"
  proof -
    from h have "takeWhile (\<lambda>w. w \<noteq> - 1) ws = ws" by (simp add: takeWhile_no_minus_one)
    with h eq have "mk_wcswidth pwcs n = Inr (sum_list ws)" by simp
    moreover from h have "0 \<le> sum_list ws"
      using widths_nonneg [of mk_wcwidth, OF mk_wcwidth_range ws] by simp
    ultimately show ?thesis by simp
  qed
  from ws a b
  show "\<exists>ws. map mk_wcwidth (traversed pwcs n) = map Inr ws \<and>
      (- 1 \<in> set ws \<and> sum_list (takeWhile (\<lambda>w. w \<noteq> - 1) ws) \<le> 2147483647 \<longrightarrow>
         mk_wcswidth pwcs n = Inr (- 1)) \<and>
      (- 1 \<notin> set ws \<and> sum_list ws \<le> 2147483647 \<and>
       length (traversed pwcs n) < length pwcs \<longrightarrow>
         0 \<le> sum_list ws \<and> mk_wcswidth pwcs n = Inr (sum_list ws))"
    by blast
  show "mk_wcswidth [0x41, 0x07, 0x42] 3 = Inr (- 1)"
    by (simp add: mk_wcswidth_def mk_wcswidth_loop_Cons mk_wcwidth_0x41 mk_wcwidth_0x07 c_int_def)
  show "mk_wcswidth [0x41, 0] 5 = Inr 1"
    by (simp add: mk_wcswidth_def mk_wcswidth_loop_Cons mk_wcwidth_0x41 c_int_def)
qed


theorem mk_wcswidth_sum_witness:
  "traversed [0x4E2D, 0x6587, 0] 2 = [0x4E2D, 0x6587] \<and>
   map mk_wcwidth [0x4E2D, 0x6587] = map Inr [2, 2] \<and>
   - 1 \<notin> set [2, 2 :: int] \<and> sum_list [2, 2 :: int] \<le> 2147483647 \<and>
   length (traversed [0x4E2D, 0x6587, 0] 2) < length [0x4E2D, 0x6587, 0 :: u32] \<and>
   mk_wcswidth [0x4E2D, 0x6587, 0] 2 = Inr 4 \<and>
   traversed [0x41, 0x07, 0x42] 3 = [0x41, 0x07, 0x42] \<and>
   map mk_wcwidth [0x41, 0x07, 0x42] = map Inr [1, - 1, 1] \<and>
   - 1 \<in> set [1, - 1, 1 :: int] \<and>
   sum_list (takeWhile (\<lambda>w. w \<noteq> - 1) [1, - 1, 1 :: int]) \<le> 2147483647 \<and>
   mk_wcswidth [0x41, 0x07, 0x42] 3 = Inr (- 1)"
proof -
  have tr: "traversed [0x4E2D, 0x6587, 0] 2 = [0x4E2D, 0x6587]"
    "traversed [0x41, 0x07, 0x42] 3 = [0x41, 0x07, 0x42]"
    by (simp_all add: traversed_def)
  have m: "map mk_wcwidth [0x4E2D, 0x6587] = map Inr [2, 2]"
    "map mk_wcwidth [0x41, 0x07, 0x42] = map Inr [1, - 1, 1]"
    by (simp_all add: mk_wcwidth_0x4E2D mk_wcwidth_0x6587 mk_wcwidth_0x41 mk_wcwidth_0x42
        mk_wcwidth_0x07)
  have side: "- 1 \<notin> set [2, 2 :: int]" "sum_list [2, 2 :: int] \<le> 2147483647"
    "length (traversed [0x4E2D, 0x6587, 0] 2) < length [0x4E2D, 0x6587, 0 :: u32]"
    "- 1 \<in> set [1, - 1, 1 :: int]"
    "sum_list (takeWhile (\<lambda>w. w \<noteq> - 1) [1, - 1, 1 :: int]) \<le> 2147483647"
    by (simp_all add: tr)
  from mk_wcswidth_sum [of "[0x4E2D, 0x6587, 0]" 2]
  obtain ws where ws: "map mk_wcwidth (traversed [0x4E2D, 0x6587, 0] 2) = map Inr ws"
    and r: "- 1 \<notin> set ws \<and> sum_list ws \<le> 2147483647 \<and>
       length (traversed [0x4E2D, 0x6587, 0] 2) < length [0x4E2D, 0x6587, 0 :: u32] \<longrightarrow>
         0 \<le> sum_list ws \<and> mk_wcswidth [0x4E2D, 0x6587, 0] 2 = Inr (sum_list ws)"
    by blast
  from ws m(1) have "map Inr ws = (map Inr [2, 2] :: (fault + int) list)"
    by (simp add: tr)
  then have "ws = [2, 2]" by auto
  with r side have a: "mk_wcswidth [0x4E2D, 0x6587, 0] 2 = Inr 4" by simp
  from mk_wcswidth_sum [of "[0x41, 0x07, 0x42]" 3]
  obtain vs where vs: "map mk_wcwidth (traversed [0x41, 0x07, 0x42] 3) = map Inr vs"
    and r': "- 1 \<in> set vs \<and> sum_list (takeWhile (\<lambda>w. w \<noteq> - 1) vs) \<le> 2147483647 \<longrightarrow>
         mk_wcswidth [0x41, 0x07, 0x42] 3 = Inr (- 1)"
    by blast
  from vs m(2) have "map Inr vs = (map Inr [1, - 1, 1] :: (fault + int) list)"
    by (simp add: tr)
  then have "vs = [1, - 1, 1]" by auto
  with r' side have b: "mk_wcswidth [0x41, 0x07, 0x42] 3 = Inr (- 1)" by simp
  from tr m side a b show ?thesis by blast
qed

theorem mk_wcswidth_sum_counterexample:
  "traversed [0x41] 1 = [0x41] \<and> mk_wcwidth 0x41 = Inr 1 \<and>
   mk_wcswidth [0x41] 1 = Inl OutOfBounds \<and>
   mk_wcwidth 0x4E2D = Inr 2 \<and>
   mk_wcswidth (replicate 1073741824 0x4E2D @ [0]) 1073741824 = Inl IntOverflow"
  by (simp add: traversed_def mk_wcswidth_def mk_wcswidth_loop_Cons mk_wcwidth_0x41 c_int_def
      mk_wcwidth_0x4E2D mk_wcswidth_overflow [unfolded mk_wcswidth_def])




end
